theory Spec2Isabelle
  imports Complex_Main
begin

section \<open>Vectors of the consistency checks\<close>

text \<open>
  The checks of \<^verbatim>\<open>utest_topology_dict_builder.py\<close> compute with numpy arrays of three
  float64 components. The model takes the components as real numbers: every operation is
  the exact one that the floating-point operation rounds.
\<close>

type_synonym vec3 = "real \<times> real \<times> real"

type_synonym uv = "real \<times> real"

fun sub3 :: "vec3 \<Rightarrow> vec3 \<Rightarrow> vec3" where
  "sub3 (a1, a2, a3) (b1, b2, b3) = (a1 - b1, a2 - b2, a3 - b3)"

fun neg3 :: "vec3 \<Rightarrow> vec3" where
  "neg3 (a1, a2, a3) = (- a1, - a2, - a3)"

text \<open>\<^verbatim>\<open>np.cross\<close>, \<^verbatim>\<open>np.dot\<close> and \<^verbatim>\<open>np.linalg.norm\<close> on vectors of length three.\<close>

fun cross :: "vec3 \<Rightarrow> vec3 \<Rightarrow> vec3" where
  "cross (a1, a2, a3) (b1, b2, b3) = (a2 * b3 - a3 * b2, a3 * b1 - a1 * b3, a1 * b2 - a2 * b1)"

fun dot :: "vec3 \<Rightarrow> vec3 \<Rightarrow> real" where
  "dot (a1, a2, a3) (b1, b2, b3) = a1 * b1 + a2 * b2 + a3 * b3"

fun norm3 :: "vec3 \<Rightarrow> real" where
  "norm3 (a1, a2, a3) = sqrt (a1 * a1 + a2 * a2 + a3 * a3)"

subsection \<open>\<^verbatim>\<open>vectors_parallel\<close>\<close>

definition eps :: real where
  "eps = 1 / 10 ^ 7"

definition angle_tol_deg :: real where
  "angle_tol_deg = 1"

text \<open>\<^verbatim>\<open>angle_tol_rands = math.pi * angle_tol_deg/180.8\<close>: the product first, then the division.\<close>

definition angle_tol_rands :: real where
  "angle_tol_rands = pi * angle_tol_deg / 180.8"

definition cos_tol_angle :: real where
  "cos_tol_angle = cos angle_tol_rands"

text \<open>
  One run of \<^verbatim>\<open>vectors_parallel\<close>: the value returned, and the denominators of the
  divisions the run performed, in order. The two early returns divide nothing; the last
  branch divides the dot product by \<^verbatim>\<open>l1*l2\<close> once.
\<close>

definition vectors_parallel_run :: "vec3 \<Rightarrow> vec3 \<Rightarrow> bool \<times> real list" where
  "vectors_parallel_run v1 v2 =
     (let l1 = norm3 v1; l2 = norm3 v2 in
      if l1 < eps then (True, [])
      else if l2 < eps then (True, [])
      else
        (let d = dot v1 v2; cos_angle = d / (l1 * l2) in
         (cos_tol_angle > cos_angle, [l1 * l2])))"

definition vectors_parallel :: "vec3 \<Rightarrow> vec3 \<Rightarrow> bool" where
  "vectors_parallel v1 v2 = fst (vectors_parallel_run v1 v2)"

definition divisions :: "vec3 \<Rightarrow> vec3 \<Rightarrow> real list" where
  "divisions v1 v2 = snd (vectors_parallel_run v1 v2)"

section \<open>The dictionary read by the checks\<close>

text \<open>
  The checks read the keys \<^verbatim>\<open>shells\<close> and \<^verbatim>\<open>faces\<close> of the dictionary, the key
  \<^verbatim>\<open>faces\<close> of a shell record, \<^verbatim>\<open>face_orientation_wrt_shell\<close> of a face-use and
  \<^verbatim>\<open>surface_orientation\<close> of a face record. The other fields are the ones the
  specification lists for each record.
\<close>

datatype error = AssertionError | IndexError | KernelError | LookupError | MalformedShape

record vertex_record =
  point :: vec3

record edge_record =
  start_vertex :: nat
  end_vertex :: nat

record edge_use =
  edge_index :: nat
  orientation :: bool

record wire_record =
  wire_edges :: "edge_use list"

record face_record =
  outer_wire :: nat
  inner_wires :: "nat list"
  surface_orientation :: bool

record face_use =
  face_index :: nat
  face_orientation_wrt_shell :: bool

record shell_record =
  shell_faces :: "face_use list"

record topology_dict =
  vertices :: "vertex_record list"
  edges :: "edge_record list"
  wires :: "wire_record list"
  faces :: "face_record list"
  shells :: "shell_record list"

subsection \<open>\<^verbatim>\<open>check_face_orientation_wrt_shell\<close>\<close>

text \<open>The inner loop: one \<^verbatim>\<open>assertTrue\<close> per face-use, the first false flag raises.\<close>

fun check_shell_face_uses :: "face_use list \<Rightarrow> error + unit" where
  "check_shell_face_uses [] = Inr ()"
| "check_shell_face_uses (face # rest) =
     (if face_orientation_wrt_shell face then check_shell_face_uses rest
      else Inl AssertionError)"

text \<open>The outer loop, with the running value of \<^verbatim>\<open>total_num_shell_faces\<close>.\<close>

fun shells_loop :: "shell_record list \<Rightarrow> nat \<Rightarrow> error + nat" where
  "shells_loop [] total_num_shell_faces = Inr total_num_shell_faces"
| "shells_loop (shell # rest) total_num_shell_faces =
     (case check_shell_face_uses (shell_faces shell) of
        Inl e \<Rightarrow> Inl e
      | Inr _ \<Rightarrow> shells_loop rest (total_num_shell_faces + length (shell_faces shell)))"

definition check_face_orientation_wrt_shell :: "topology_dict \<Rightarrow> error + unit" where
  "check_face_orientation_wrt_shell output =
     (case shells_loop (shells output) 0 of
        Inl e \<Rightarrow> Inl e
      | Inr total_num_shell_faces \<Rightarrow>
          if total_num_shell_faces = length (faces output) then Inr ()
          else Inl AssertionError)"

section \<open>The kernel queries of the checks\<close>

text \<open>
  A triangulation as the kernel hands it out: nodes, their parametric locations and the
  triangles, each three node indices. \<^verbatim>\<open>Node\<close> and \<^verbatim>\<open>UVNode\<close> count from 1; an index
  outside the array is the kernel's range error.
\<close>

record mesh =
  nodes :: "vec3 list"
  uv_nodes :: "uv list"
  triangles :: "(nat \<times> nat \<times> nat) list"

definition Node :: "mesh \<Rightarrow> nat \<Rightarrow> error + vec3" where
  "Node m i = (if 1 \<le> i \<and> i \<le> length (nodes m) then Inr (nodes m ! (i - 1)) else Inl KernelError)"

definition UVNode :: "mesh \<Rightarrow> nat \<Rightarrow> error + uv" where
  "UVNode m i =
     (if 1 \<le> i \<and> i \<le> length (uv_nodes m) then Inr (uv_nodes m ! (i - 1)) else Inl KernelError)"

definition get_tri_vertex_coord :: "mesh \<Rightarrow> nat \<Rightarrow> error + vec3" where
  "get_tri_vertex_coord m index = Node m index"

text \<open>
  A surface is its first-order evaluation \<^verbatim>\<open>D1\<close>: the point and the two parametric
  derivatives at \<open>(u, v)\<close>.
\<close>

type_synonym surface = "real \<Rightarrow> real \<Rightarrow> vec3 \<times> vec3 \<times> vec3"

definition get_face_normal :: "surface \<Rightarrow> uv \<Rightarrow> bool \<Rightarrow> vec3" where
  "get_face_normal surf uv1 face_orientation_wrt_surf =
     (case surf (fst uv1) (snd uv1) of
        (pnt, u_deriv, v_deriv) \<Rightarrow>
          (let face_normal = cross u_deriv v_deriv in
           if \<not> face_orientation_wrt_surf then neg3 face_normal else face_normal))"

text \<open>
  What the test asks of the kernel for a body and its faces: the faces a
  \<^verbatim>\<open>TopologyExplorer\<close> enumerates, the surface of a face, the triangulation stored on a
  face once the body is meshed (\<open>None\<close> when there is none), and whether the
  incremental mesh is done.
\<close>

record ('body, 'face) kernel =
  explorer_faces :: "'body \<Rightarrow> 'face list"
  adaptor_surface :: "'face \<Rightarrow> surface"
  triangulation :: "'face \<Rightarrow> mesh option"
  mesh_is_done :: "'body \<Rightarrow> bool"

text \<open>
  \<^verbatim>\<open>EntityMapper\<close> and \<^verbatim>\<open>TopologyDictBuilder\<close> are imported from modules that are not
  among the sources: the checks take them as parameters, as the operations the test calls
  on them. A mapper is a Python object, so each call hands back the mapper as the call
  left it.
\<close>

record ('body, 'face, 'mapper) core =
  EntityMapper :: "'body \<Rightarrow> error + 'mapper"
  mapper_face_index :: "'mapper \<Rightarrow> 'face \<Rightarrow> (error + nat) \<times> 'mapper"
  builder_build_dict_for_body :: "'mapper \<Rightarrow> 'body \<Rightarrow> (error + topology_dict) \<times> 'mapper"

subsection \<open>\<^verbatim>\<open>load_bodies_from_file\<close>\<close>

text \<open>
  A STEP file as the reader shows it to the test: whether the path exists, whether
  \<^verbatim>\<open>ReadFile\<close> answers \<^verbatim>\<open>IFSelect_RetDone\<close>, and what the transfers of root 1, 2, ...
  give in turn: a shape, the answer not ok, or an exception of the reader. A file has
  finitely many roots: past the end of the list the reader answers not ok.
\<close>

datatype 'body transfer = Transferred 'body | NotOk | Raises

record 'body step_file =
  file_exists :: bool
  read_file_done :: bool
  root_transfers :: "'body transfer list"

text \<open>
  The \<^verbatim>\<open>while True\<close> loop inside \<^verbatim>\<open>try\<close>: it appends the shape of each root
  transferred, leaves at the first answer that is not ok, and the bare \<^verbatim>\<open>except\<close> ends it
  on an exception with the shapes read so far.
\<close>

fun transfer_loop :: "'body transfer list \<Rightarrow> 'body list" where
  "transfer_loop [] = []"
| "transfer_loop (Transferred shape # rest) = shape # transfer_loop rest"
| "transfer_loop (NotOk # rest) = []"
| "transfer_loop (Raises # rest) = []"

definition load_bodies_from_file :: "'body step_file \<Rightarrow> error + 'body list" where
  "load_bodies_from_file pathname =
     (if \<not> file_exists pathname then Inl AssertionError
      else if read_file_done pathname then Inr (transfer_loop (root_transfers pathname))
      else Inl AssertionError)"

subsection \<open>\<^verbatim>\<open>check_face_orientation_against_triangles\<close>\<close>

text \<open>
  The body of the loop up to its assertion: the two normals of one triangle, or the
  kernel's error.
\<close>

definition triangle_normals ::
  "surface \<Rightarrow> bool \<Rightarrow> mesh \<Rightarrow> nat \<times> nat \<times> nat \<Rightarrow> error + vec3 \<times> vec3" where
  "triangle_normals surf face_orientation m tri =
     (case tri of (index1, index2, index3) \<Rightarrow>
        (case get_tri_vertex_coord m index1 of Inl e \<Rightarrow> Inl e | Inr pt1 \<Rightarrow>
        (case get_tri_vertex_coord m index2 of Inl e \<Rightarrow> Inl e | Inr pt2 \<Rightarrow>
        (case get_tri_vertex_coord m index3 of Inl e \<Rightarrow> Inl e | Inr pt3 \<Rightarrow>
           (let v1 = sub3 pt2 pt1;
                v2 = sub3 pt2 pt3;
                normal_from_triangle = cross v1 v2
            in case UVNode m index1 of Inl e \<Rightarrow> Inl e | Inr uv1 \<Rightarrow>
                 Inr (get_face_normal surf uv1 face_orientation, normal_from_triangle))))))"

text \<open>
  The loop over the triangles. Its result comes with the pairs of normals handed to
  \<^verbatim>\<open>assertTrue(self.vectors_parallel(...))\<close>, in order: the assertions the run made.
\<close>

fun triangles_loop ::
  "surface \<Rightarrow> bool \<Rightarrow> mesh \<Rightarrow> (nat \<times> nat \<times> nat) list \<Rightarrow> (vec3 \<times> vec3) list \<times> (error + unit)" where
  "triangles_loop surf face_orientation m [] = ([], Inr ())"
| "triangles_loop surf face_orientation m (tri # rest) =
     (case triangle_normals surf face_orientation m tri of
        Inl e \<Rightarrow> ([], Inl e)
      | Inr (normal_from_face, normal_from_triangle) \<Rightarrow>
          if vectors_parallel normal_from_face normal_from_triangle
          then (case triangles_loop surf face_orientation m rest of
                  (asserted, r) \<Rightarrow> ((normal_from_face, normal_from_triangle) # asserted, r))
          else ([(normal_from_face, normal_from_triangle)], Inl AssertionError))"

definition check_face_orientation_against_triangles_run ::
  "('body, 'face) kernel \<Rightarrow> face_record \<Rightarrow> 'face \<Rightarrow> (vec3 \<times> vec3) list \<times> (error + unit)" where
  "check_face_orientation_against_triangles_run k output_face face =
     (let face_orientation = surface_orientation output_face;
          surf = adaptor_surface k face
      in case triangulation k face of
           None \<Rightarrow> ([], Inr ())
         | Some m \<Rightarrow> triangles_loop surf face_orientation m (triangles m))"

definition check_face_orientation_against_triangles ::
  "('body, 'face) kernel \<Rightarrow> face_record \<Rightarrow> 'face \<Rightarrow> error + unit" where
  "check_face_orientation_against_triangles k output_face face =
     snd (check_face_orientation_against_triangles_run k output_face face)"

definition assertions_made ::
  "('body, 'face) kernel \<Rightarrow> face_record \<Rightarrow> 'face \<Rightarrow> (vec3 \<times> vec3) list" where
  "assertions_made k output_face face =
     fst (check_face_orientation_against_triangles_run k output_face face)"

subsection \<open>\<^verbatim>\<open>check_face_orientations_against_triangles\<close>\<close>

text \<open>
  The loop over the faces of the body. \<^verbatim>\<open>output["faces"][face_index]\<close> raises
  \<^verbatim>\<open>IndexError\<close> past the end of the list.
\<close>

fun faces_loop ::
  "('body, 'face) kernel \<Rightarrow> ('body, 'face, 'mapper) core \<Rightarrow> topology_dict \<Rightarrow>
   'mapper \<Rightarrow> 'face list \<Rightarrow> error + unit" where
  "faces_loop k c output entity_mapper [] = Inr ()"
| "faces_loop k c output entity_mapper (face # rest) =
     (case mapper_face_index c entity_mapper face of
        (Inl e, _) \<Rightarrow> Inl e
      | (Inr i, entity_mapper') \<Rightarrow>
          if i < length (faces output) then
            (case check_face_orientation_against_triangles k (faces output ! i) face of
               Inl e \<Rightarrow> Inl e
             | Inr _ \<Rightarrow> faces_loop k c output entity_mapper' rest)
          else Inl IndexError)"

definition check_face_orientations_against_triangles ::
  "('body, 'face) kernel \<Rightarrow> ('body, 'face, 'mapper) core \<Rightarrow> topology_dict \<Rightarrow>
   'body \<Rightarrow> 'mapper \<Rightarrow> error + unit" where
  "check_face_orientations_against_triangles k c output body entity_mapper =
     faces_loop k c output entity_mapper (explorer_faces k body)"

subsection \<open>\<^verbatim>\<open>check_output_for_body\<close>, \<^verbatim>\<open>build_dict_for_body\<close>, \<^verbatim>\<open>build_dicts_for_file\<close>\<close>

definition check_output_for_body ::
  "('body, 'face) kernel \<Rightarrow> ('body, 'face, 'mapper) core \<Rightarrow> topology_dict \<Rightarrow>
   'body \<Rightarrow> 'mapper \<Rightarrow> bool \<Rightarrow> error + unit" where
  "check_output_for_body k c output body entity_mapper expect_manifold =
     (if \<not> mesh_is_done k body then Inl AssertionError
      else if expect_manifold then
        (case check_face_orientation_wrt_shell output of
           Inl e \<Rightarrow> Inl e
         | Inr _ \<Rightarrow> check_face_orientations_against_triangles k c output body entity_mapper)
      else Inr ())"

definition build_dict_for_body ::
  "('body, 'face) kernel \<Rightarrow> ('body, 'face, 'mapper) core \<Rightarrow> 'body \<Rightarrow> bool \<Rightarrow>
   error + unit" where
  "build_dict_for_body k c body expect_manifold =
     (case EntityMapper c body of
        Inl e \<Rightarrow> Inl e
      | Inr entity_mapper \<Rightarrow>
          (case builder_build_dict_for_body c entity_mapper body of
             (Inl e, _) \<Rightarrow> Inl e
           | (Inr output, entity_mapper') \<Rightarrow>
               check_output_for_body k c output body entity_mapper' expect_manifold))"

text \<open>
  The loop of \<^verbatim>\<open>build_dicts_for_file\<close> over \<^verbatim>\<open>enumerate(bodies)\<close>. Its result comes with
  the indices it printed as \<^verbatim>\<open>Body {index}\<close>: the bodies whose processing it started.
  Nothing in the loop catches an exception.
\<close>

fun bodies_loop ::
  "('body, 'face) kernel \<Rightarrow> ('body, 'face, 'mapper) core \<Rightarrow> nat \<Rightarrow> 'body list \<Rightarrow>
   nat list \<times> (error + unit)" where
  "bodies_loop k c index [] = ([], Inr ())"
| "bodies_loop k c index (body # rest) =
     (case build_dict_for_body k c body True of
        Inl e \<Rightarrow> ([index], Inl e)
      | Inr _ \<Rightarrow>
          (case bodies_loop k c (Suc index) rest of
             (printed, r) \<Rightarrow> (index # printed, r)))"

definition build_dicts_for_file ::
  "('body, 'face) kernel \<Rightarrow> ('body, 'face, 'mapper) core \<Rightarrow> 'body step_file \<Rightarrow>
   nat list \<times> (error + unit)" where
  "build_dicts_for_file k c pathname =
     (case load_bodies_from_file pathname of
        Inl e \<Rightarrow> ([], Inl e)
      | Inr bodies \<Rightarrow> bodies_loop k c 0 bodies)"

section \<open>Sample inputs\<close>

text \<open>
  A kernel with one planar face per body: the surface \<open>(u, v) \<mapsto> (u, v, 0)\<close>, whose
  derivatives are the first two unit vectors, and a given triangulation on the face.
\<close>

definition plane_kernel :: "mesh option \<Rightarrow> (nat, unit) kernel" where
  "plane_kernel tri =
     \<lparr>explorer_faces = (\<lambda>b. [()]),
      adaptor_surface = (\<lambda>f u v. ((u, v, 0), (1, 0, 0), (0, 1, 0))),
      triangulation = (\<lambda>f. tri),
      mesh_is_done = (\<lambda>b. True)\<rparr>"

text \<open>A readable file whose roots all transfer, giving the listed bodies.\<close>

definition file_of_bodies :: "nat list \<Rightarrow> nat step_file" where
  "file_of_bodies bodies =
     \<lparr>file_exists = True, read_file_done = True, root_transfers = map Transferred bodies\<rparr>"

text \<open>One triangle in the plane whose nodes run clockwise seen from \<open>+z\<close>.\<close>

definition clockwise_triangle :: mesh where
  "clockwise_triangle =
     \<lparr>nodes = [(0, 0, 0), (0, 1, 0), (1, 0, 0)],
      uv_nodes = [(0, 0), (0, 1), (1, 0)],
      triangles = [(1, 2, 3)]\<rparr>"

text \<open>A dictionary of one face used once by one shell, with the given use flag.\<close>

definition one_face_dict :: "bool \<Rightarrow> topology_dict" where
  "one_face_dict flag =
     \<lparr>vertices = [], edges = [], wires = [],
      faces = [\<lparr>outer_wire = 0, inner_wires = [], surface_orientation = True\<rparr>],
      shells = [\<lparr>shell_faces = [\<lparr>face_index = 0, face_orientation_wrt_shell = flag\<rparr>]\<rparr>]\<rparr>"

text \<open>
  A mapper and a builder that hand out \<open>one_face_dict\<close>, with a false use flag for
  body \<open>0\<close> only: the check of body \<open>0\<close> raises, every other body passes.
\<close>

definition first_body_bad_core :: "(nat, unit, unit) core" where
  "first_body_bad_core =
     \<lparr>EntityMapper = (\<lambda>b. Inr ()),
      mapper_face_index = (\<lambda>m f. (Inr 0, m)),
      builder_build_dict_for_body = (\<lambda>m b. (Inr (one_face_dict (b \<noteq> 0)), m))\<rparr>"

section \<open>The Entity Mapper and the Dictionary Builder\<close>

text \<open>
  \<^verbatim>\<open>entity_mapper.py\<close> and \<^verbatim>\<open>topology_dict_builder.py\<close> are imported by the test and are
  not among the sources. The definitions of this section follow the specification's
  sections 3, 4.1 and 4.2 and its design notes instead.
\<close>

text \<open>
  Modelled from the spec: the kernel's identity handle of an entity (the kernel's shape
  classes are missing); two entities are the same exactly when their handles are.
\<close>

type_synonym handle = nat

text \<open>
  Modelled from the spec: the shape graph of a solid as the kernel's decomposition
  queries give it (the kernel is missing): the shells of the solid, the face-uses of a
  shell, the wires of a face (the outer one first), the face's own orientation flag, the
  edge-uses of a wire, the two vertices of an edge, the point of a vertex.
\<close>

record shape =
  solid_shells :: "handle list"
  shell_face_uses :: "handle \<Rightarrow> (handle \<times> bool) list"
  face_wires :: "handle \<Rightarrow> handle list"
  face_surface_orientation :: "handle \<Rightarrow> bool"
  wire_edge_uses :: "handle \<Rightarrow> (handle \<times> bool) list"
  edge_vertices :: "handle \<Rightarrow> handle \<times> handle"
  vertex_point :: "handle \<Rightarrow> vec3"

text \<open>Modelled from the spec: the five entity kinds the mapper indexes.\<close>

datatype kind = Vertex | Edge | Wire | Face | Shell

text \<open>
  Modelled from the spec: the kernel's enumeration of the entities of one kind, in the
  order of the depth-first walk solid, shell, face, wire, edge, vertex of the design
  notes; an entity reached through several parents is listed once per parent.
\<close>

definition shells_of :: "shape \<Rightarrow> handle list" where
  "shells_of s = solid_shells s"

text \<open>Modelled from the spec: the faces, shell by shell, in the order of their uses.\<close>

definition faces_of :: "shape \<Rightarrow> handle list" where
  "faces_of s = concat (map (\<lambda>sh. map fst (shell_face_uses s sh)) (shells_of s))"

text \<open>Modelled from the spec: the wires, face by face.\<close>

definition wires_of :: "shape \<Rightarrow> handle list" where
  "wires_of s = concat (map (face_wires s) (faces_of s))"

text \<open>Modelled from the spec: the edges, wire by wire, in the order of their uses.\<close>

definition edges_of :: "shape \<Rightarrow> handle list" where
  "edges_of s = concat (map (\<lambda>w. map fst (wire_edge_uses s w)) (wires_of s))"

text \<open>Modelled from the spec: the vertices, edge by edge, both ends of each.\<close>

definition vertices_of :: "shape \<Rightarrow> handle list" where
  "vertices_of s =
     concat (map (\<lambda>e. [fst (edge_vertices s e), snd (edge_vertices s e)]) (edges_of s))"

text \<open>Modelled from the spec: the decomposition query (enumerate the entities of a kind).\<close>

fun decompose :: "shape \<Rightarrow> kind \<Rightarrow> handle list" where
  "decompose s Vertex = vertices_of s"
| "decompose s Edge = edges_of s"
| "decompose s Wire = wires_of s"
| "decompose s Face = faces_of s"
| "decompose s Shell = shells_of s"

text \<open>
  Modelled from the spec: the mapper's index assignment (the Entity Mapper's code is
  missing). An entity gets the next index on its first encounter and keeps it on every
  later one: the entities seen so far are listed in the order of their indices.
\<close>

fun discover :: "handle list \<Rightarrow> handle list \<Rightarrow> handle list" where
  "discover seen [] = seen"
| "discover seen (h # hs) = discover (if h \<in> set seen then seen else seen @ [h]) hs"

text \<open>Modelled from the spec: the index of an entity among those seen, if it was seen.\<close>

fun position :: "handle list \<Rightarrow> handle \<Rightarrow> nat option" where
  "position [] h = None"
| "position (x # xs) h = (if x = h then Some 0 else map_option Suc (position xs h))"

text \<open>Modelled from the spec: the state of a mapper, the entities seen of each kind.\<close>

type_synonym entity_mapper = "kind \<Rightarrow> handle list"

text \<open>Modelled from the spec: one full decomposition pass of the mapper over a shape.\<close>

definition visit_shape :: "shape \<Rightarrow> entity_mapper \<Rightarrow> entity_mapper" where
  "visit_shape s m = (\<lambda>kd. discover (m kd) (decompose s kd))"

text \<open>
  Modelled from the spec: \<^verbatim>\<open>EntityMapper(shape)\<close>, which performs the full decomposition
  pass at construction time.
\<close>

definition EntityMapper_new :: "shape \<Rightarrow> entity_mapper" where
  "EntityMapper_new s = visit_shape s (\<lambda>kd. [])"

text \<open>
  Modelled from the spec: \<^verbatim>\<open>index_of\<close>, which fails with a Lookup error on an entity
  that was never discovered rather than assigning it an index.
\<close>

definition index_of :: "entity_mapper \<Rightarrow> kind \<Rightarrow> handle \<Rightarrow> error + nat" where
  "index_of m kd h = (case position (m kd) h of None \<Rightarrow> Inl LookupError | Some i \<Rightarrow> Inr i)"

text \<open>Modelled from the spec: \<^verbatim>\<open>count\<close>, the distinct entities of a kind discovered.\<close>

definition count :: "entity_mapper \<Rightarrow> kind \<Rightarrow> nat" where
  "count m kd = length (m kd)"

text \<open>Modelled from the spec: a list of references, failing at the first failed lookup.\<close>

fun map_err :: "('a \<Rightarrow> error + 'b) \<Rightarrow> 'a list \<Rightarrow> error + 'b list" where
  "map_err f [] = Inr []"
| "map_err f (x # xs) =
     (case f x of
        Inl e \<Rightarrow> Inl e
      | Inr y \<Rightarrow> (case map_err f xs of Inl e \<Rightarrow> Inl e | Inr ys \<Rightarrow> Inr (y # ys)))"

text \<open>
  Modelled from the spec: the builder's one pass over the entities of a kind (the
  Dictionary Builder's code is missing). It walks the kernel's enumeration, emits the
  record of an entity when it meets it first and skips it afterwards; a failing record
  aborts the pass.
\<close>

fun emit :: "(handle \<Rightarrow> error + 'r) \<Rightarrow> handle list \<Rightarrow> handle list \<Rightarrow> error + 'r list" where
  "emit record_of seen [] = Inr []"
| "emit record_of seen (h # hs) =
     (if h \<in> set seen then emit record_of seen hs
      else
        (case record_of h of
           Inl e \<Rightarrow> Inl e
         | Inr r \<Rightarrow>
             (case emit record_of (seen @ [h]) hs of
                Inl e \<Rightarrow> Inl e
              | Inr rs \<Rightarrow> Inr (r # rs))))"

text \<open>Modelled from the spec: the vertex record, the point coordinates.\<close>

definition vertex_record_of :: "shape \<Rightarrow> handle \<Rightarrow> error + vertex_record" where
  "vertex_record_of s v = Inr \<lparr>point = vertex_point s v\<rparr>"

text \<open>Modelled from the spec: the edge record, the two bounding vertex indices.\<close>

definition edge_record_of :: "entity_mapper \<Rightarrow> shape \<Rightarrow> handle \<Rightarrow> error + edge_record" where
  "edge_record_of m s e =
     (case index_of m Vertex (fst (edge_vertices s e)) of Inl x \<Rightarrow> Inl x | Inr a \<Rightarrow>
     (case index_of m Vertex (snd (edge_vertices s e)) of Inl x \<Rightarrow> Inl x | Inr b \<Rightarrow>
        Inr \<lparr>start_vertex = a, end_vertex = b\<rparr>))"

text \<open>
  Modelled from the spec: one \<^verbatim>\<open>{edge_index, orientation}\<close> pair, the flag read from the
  kernel's edge-in-wire use.
\<close>

definition edge_use_of :: "entity_mapper \<Rightarrow> handle \<times> bool \<Rightarrow> error + edge_use" where
  "edge_use_of m u =
     (case index_of m Edge (fst u) of
        Inl x \<Rightarrow> Inl x
      | Inr i \<Rightarrow> Inr \<lparr>edge_index = i, orientation = snd u\<rparr>)"

text \<open>Modelled from the spec: the wire record, the ordered list of its edge-uses.\<close>

definition wire_record_of :: "entity_mapper \<Rightarrow> shape \<Rightarrow> handle \<Rightarrow> error + wire_record" where
  "wire_record_of m s w =
     (case map_err (edge_use_of m) (wire_edge_uses s w) of
        Inl x \<Rightarrow> Inl x
      | Inr us \<Rightarrow> Inr \<lparr>wire_edges = us\<rparr>)"

text \<open>
  Modelled from the spec: the face record, the outer wire index, the inner wire indices
  and the face's flag; a face with zero wires is a Malformed-Shape error.
\<close>

definition face_record_of :: "entity_mapper \<Rightarrow> shape \<Rightarrow> handle \<Rightarrow> error + face_record" where
  "face_record_of m s f =
     (case face_wires s f of
        [] \<Rightarrow> Inl MalformedShape
      | w # ws \<Rightarrow>
          (case index_of m Wire w of Inl x \<Rightarrow> Inl x | Inr ow \<Rightarrow>
          (case map_err (index_of m Wire) ws of Inl x \<Rightarrow> Inl x | Inr iws \<Rightarrow>
             Inr \<lparr>outer_wire = ow, inner_wires = iws,
                  surface_orientation = face_surface_orientation s f\<rparr>)))"

text \<open>
  Modelled from the spec: one \<^verbatim>\<open>{face_index, face_orientation_wrt_shell}\<close> pair, the
  flag read from the kernel's face-in-shell use and never recomputed.
\<close>

definition face_use_of :: "entity_mapper \<Rightarrow> handle \<times> bool \<Rightarrow> error + face_use" where
  "face_use_of m u =
     (case index_of m Face (fst u) of
        Inl x \<Rightarrow> Inl x
      | Inr i \<Rightarrow> Inr \<lparr>face_index = i, face_orientation_wrt_shell = snd u\<rparr>)"

text \<open>
  Modelled from the spec: the shell record, the ordered list of its face-uses; a shell
  with zero faces is a Malformed-Shape error.
\<close>

definition shell_record_of :: "entity_mapper \<Rightarrow> shape \<Rightarrow> handle \<Rightarrow> error + shell_record" where
  "shell_record_of m s sh =
     (case shell_face_uses s sh of
        [] \<Rightarrow> Inl MalformedShape
      | u # us \<Rightarrow>
          (case map_err (face_use_of m) (u # us) of
             Inl x \<Rightarrow> Inl x
           | Inr fus \<Rightarrow> Inr \<lparr>shell_faces = fus\<rparr>))"

text \<open>
  Modelled from the spec: \<^verbatim>\<open>TopologyDictBuilder(mapper).build_dict_for_body(shape)\<close>. A
  solid with zero shells is a Malformed-Shape error; then one pass per entity kind, and
  any error aborts the whole build.
\<close>

definition TopologyDictBuilder_build_dict_for_body ::
  "entity_mapper \<Rightarrow> shape \<Rightarrow> error + topology_dict" where
  "TopologyDictBuilder_build_dict_for_body m s =
     (if solid_shells s = [] then Inl MalformedShape else
      (case emit (vertex_record_of s) [] (decompose s Vertex) of Inl x \<Rightarrow> Inl x | Inr vs \<Rightarrow>
      (case emit (edge_record_of m s) [] (decompose s Edge) of Inl x \<Rightarrow> Inl x | Inr es \<Rightarrow>
      (case emit (wire_record_of m s) [] (decompose s Wire) of Inl x \<Rightarrow> Inl x | Inr ws \<Rightarrow>
      (case emit (face_record_of m s) [] (decompose s Face) of Inl x \<Rightarrow> Inl x | Inr fs \<Rightarrow>
      (case emit (shell_record_of m s) [] (decompose s Shell) of Inl x \<Rightarrow> Inl x | Inr shs \<Rightarrow>
         Inr \<lparr>vertices = vs, edges = es, wires = ws, faces = fs, shells = shs\<rparr>))))))"

subsection \<open>The builder at work on a mapper object\<close>

text \<open>
  Modelled from the spec: an operation of the builder on the mapper it was given (the
  code of both is missing). The mapper is an object the builder keeps a reference to:
  an operation takes the mapper's state and hands back its result or error together
  with the state it leaves behind.
\<close>

type_synonym 'a mapper_op = "entity_mapper \<Rightarrow> (error + 'a) \<times> entity_mapper"


text \<open>
  Modelled from the spec: one operation after another on the same mapper object; an
  error of the first aborts the rest.
\<close>

definition then_op :: "'a mapper_op \<Rightarrow> ('a \<Rightarrow> 'b mapper_op) \<Rightarrow> 'b mapper_op" where
  "then_op p f m = (case p m of (Inl e, m') \<Rightarrow> (Inl e, m') | (Inr a, m') \<Rightarrow> f a m')"














text \<open>
  Modelled from the spec: a manifold solid, in which every face is used by exactly one
  shell, exactly once: no face occurs twice among the face-uses of the shells.
\<close>

definition manifold :: "shape \<Rightarrow> bool" where
  "manifold s = distinct (decompose s Face)"

text \<open>
  A sample solid: one shell of two faces, each bounded by one wire; the two wires run
  along the same closed edge in opposite directions, and the edge has one vertex.
\<close>

definition lens_solid :: shape where
  "lens_solid =
     \<lparr>solid_shells = [0],
      shell_face_uses = (\<lambda>sh. [(0, True), (1, True)]),
      face_wires = (\<lambda>f. [f]),
      face_surface_orientation = (\<lambda>f. f = 0),
      wire_edge_uses = (\<lambda>w. [(0, w = 0)]),
      edge_vertices = (\<lambda>e. (0, 0)),
      vertex_point = (\<lambda>v. (1, 0, 0))\<rparr>"

definition lens_dict :: topology_dict where
  "lens_dict =
     \<lparr>vertices = [\<lparr>point = (1, 0, 0)\<rparr>],
      edges = [\<lparr>start_vertex = 0, end_vertex = 0\<rparr>],
      wires = [\<lparr>wire_edges = [\<lparr>edge_index = 0, orientation = True\<rparr>]\<rparr>,
               \<lparr>wire_edges = [\<lparr>edge_index = 0, orientation = False\<rparr>]\<rparr>],
      faces = [\<lparr>outer_wire = 0, inner_wires = [], surface_orientation = True\<rparr>,
               \<lparr>outer_wire = 1, inner_wires = [], surface_orientation = False\<rparr>],
      shells = [\<lparr>shell_faces = [\<lparr>face_index = 0, face_orientation_wrt_shell = True\<rparr>,
                                \<lparr>face_index = 1, face_orientation_wrt_shell = True\<rparr>]\<rparr>]\<rparr>"

text \<open>
  A sample non-manifold solid: two shells of two faces each that share face \<open>1\<close>, which
  the first shell uses forward and the second reversed. Every face has one wire of one
  closed edge of its own.
\<close>

definition glued_solid :: shape where
  "glued_solid =
     \<lparr>solid_shells = [0, 1],
      shell_face_uses = (\<lambda>sh. if sh = 0 then [(0, True), (1, True)] else [(1, False), (2, True)]),
      face_wires = (\<lambda>f. [f]),
      face_surface_orientation = (\<lambda>f. True),
      wire_edge_uses = (\<lambda>w. [(w, True)]),
      edge_vertices = (\<lambda>e. (e, e)),
      vertex_point = (\<lambda>v. (0, 0, 0))\<rparr>"

definition glued_dict :: topology_dict where
  "glued_dict =
     \<lparr>vertices = [\<lparr>point = (0, 0, 0)\<rparr>, \<lparr>point = (0, 0, 0)\<rparr>, \<lparr>point = (0, 0, 0)\<rparr>],
      edges = [\<lparr>start_vertex = 0, end_vertex = 0\<rparr>, \<lparr>start_vertex = 1, end_vertex = 1\<rparr>,
               \<lparr>start_vertex = 2, end_vertex = 2\<rparr>],
      wires = [\<lparr>wire_edges = [\<lparr>edge_index = 0, orientation = True\<rparr>]\<rparr>,
               \<lparr>wire_edges = [\<lparr>edge_index = 1, orientation = True\<rparr>]\<rparr>,
               \<lparr>wire_edges = [\<lparr>edge_index = 2, orientation = True\<rparr>]\<rparr>],
      faces = [\<lparr>outer_wire = 0, inner_wires = [], surface_orientation = True\<rparr>,
               \<lparr>outer_wire = 1, inner_wires = [], surface_orientation = True\<rparr>,
               \<lparr>outer_wire = 2, inner_wires = [], surface_orientation = True\<rparr>],
      shells = [\<lparr>shell_faces = [\<lparr>face_index = 0, face_orientation_wrt_shell = True\<rparr>,
                                \<lparr>face_index = 1, face_orientation_wrt_shell = True\<rparr>]\<rparr>,
                \<lparr>shell_faces = [\<lparr>face_index = 1, face_orientation_wrt_shell = False\<rparr>,
                                \<lparr>face_index = 2, face_orientation_wrt_shell = True\<rparr>]\<rparr>]\<rparr>"

section \<open>The tolerance and the degenerate case\<close>

lemma angle_tol_rands_eq: "angle_tol_rands = pi / 180.8"
  by (simp add: angle_tol_rands_def angle_tol_deg_def)

lemma angle_tol_rands_bounds: "0 < angle_tol_rands \<and> angle_tol_rands < pi"
proof -
  have "0 < pi / 180.8" by simp
  moreover have "pi / 180.8 < pi" using pi_gt_zero by (simp add: field_simps)
  ultimately show ?thesis unfolding angle_tol_rands_eq by blast
qed

lemma cos_tol_angle_less_one: "cos_tol_angle < 1"
proof -
  have "cos angle_tol_rands < cos 0"
    using angle_tol_rands_bounds by (intro cos_monotone_0_pi) auto
  then show ?thesis by (simp add: cos_tol_angle_def)
qed

lemma cos_tol_angle_pos: "0 < cos_tol_angle"
proof -
  have "pi / 180.8 < pi / 2" using pi_gt_zero by (simp add: field_simps)
  then have "angle_tol_rands < pi / 2" unfolding angle_tol_rands_eq .
  then show ?thesis
    unfolding cos_tol_angle_def using angle_tol_rands_bounds by (intro cos_gt_zero) auto
qed

text \<open>
  C7. The tolerance of the parallelism check is \<open>pi * 1 / 180.8\<close> radians: the division
  is by 180.8, so the constant is not \<open>pi * 1 / 180\<close>, the radians of one degree, and lies
  below it.
\<close>

theorem angle_tolerance_divides_by_180_8:
  "angle_tol_rands = pi * 1 / 180.8 \<and> angle_tol_rands \<noteq> pi * 1 / 180 \<and>
   angle_tol_rands < pi * 1 / 180"
proof -
  have a: "angle_tol_rands = pi * 1 / 180.8"
    by (simp add: angle_tol_rands_def angle_tol_deg_def)
  have b: "pi * 1 / 180.8 < pi * 1 / 180"
    using pi_gt_zero by (simp add: field_simps)
  have c: "angle_tol_rands < pi * 1 / 180" unfolding a by (rule b)
  have d: "angle_tol_rands \<noteq> pi * 1 / 180" using c by (rule less_imp_neq)
  from a d c show ?thesis by (intro conjI)
qed

text \<open>
  C8. When the norm of either vector is below \<open>1e-7\<close>, \<^verbatim>\<open>vectors_parallel\<close> returns true
  and divides nothing. Every division a run does perform has a denominator of at least
  \<open>1e-7 * 1e-7\<close>, which is positive.
\<close>

theorem degenerate_vectors_parallel_without_division:
  "(norm3 v1 < eps \<or> norm3 v2 < eps \<longrightarrow> vectors_parallel v1 v2 \<and> divisions v1 v2 = [])
   \<and> (\<forall>d \<in> set (divisions v1 v2). eps * eps \<le> d \<and> 0 < d)"
proof -
  have e: "0 < eps" by (simp add: eps_def)
  have "eps * eps \<le> norm3 v1 * norm3 v2 \<and> 0 < norm3 v1 * norm3 v2"
    if "\<not> norm3 v1 < eps" "\<not> norm3 v2 < eps"
  proof -
    have "eps \<le> norm3 v1" "eps \<le> norm3 v2" using that by simp_all
    then have "eps * eps \<le> norm3 v1 * norm3 v2" using e by (intro mult_mono) simp_all
    moreover have "0 < eps * eps" using e by simp
    ultimately show ?thesis by linarith
  qed
  then show ?thesis
    by (auto simp: vectors_parallel_def divisions_def vectors_parallel_run_def Let_def)
qed

theorem degenerate_vectors_parallel_witness:
  "norm3 (0, 0, 0) < eps \<and> vectors_parallel (0, 0, 0) (1, 0, 0) \<and>
   divisions (0, 0, 0) (1, 0, 0) = [] \<and>
   divisions (1, 0, 0) (1, 0, 0) = [1] \<and> eps * eps \<le> 1"
proof -
  have d: "divisions (1, 0, 0) (1, 0, 0) = [1]"
    by (simp add: divisions_def vectors_parallel_run_def eps_def)
  show ?thesis
    using degenerate_vectors_parallel_without_division [of "(0, 0, 0)" "(1, 0, 0)"]
      degenerate_vectors_parallel_without_division [of "(1, 0, 0)" "(1, 0, 0)"] d
    by (simp add: eps_def)
qed

text \<open>
  Past the two guards the result is the comparison as the source writes it: true when
  the cosine of the angle is below the cosine of the tolerance.
\<close>

lemma vectors_parallel_nondegenerate:
  "eps \<le> norm3 v1 \<Longrightarrow> eps \<le> norm3 v2 \<Longrightarrow>
   vectors_parallel v1 v2 \<longleftrightarrow> dot v1 v2 / (norm3 v1 * norm3 v2) < cos_tol_angle"
  by (simp add: vectors_parallel_def vectors_parallel_run_def Let_def)

text \<open>
  C1. The claim takes two non-degenerate vectors to be judged parallel exactly when the
  cosine of their angle exceeds the cosine of the tolerance. The source returns
  \<^verbatim>\<open>cos_tol_angle > cos_angle\<close>: two equal unit vectors (cosine 1) are judged not
  parallel, two opposite ones (cosine -1) are judged parallel, and on a planar face whose
  normal equals the normal the check computes from a triangle, the check of the face
  raises at its first assertion.
\<close>

theorem equal_normals_are_judged_not_parallel:
  "\<not> vectors_parallel (0, 0, 1) (0, 0, 1) \<and>
   vectors_parallel (0, 0, 1) (0, 0, - 1) \<and>
   assertions_made (plane_kernel (Some clockwise_triangle))
     \<lparr>outer_wire = 0, inner_wires = [], surface_orientation = True\<rparr> ()
     = [((0, 0, 1), (0, 0, 1))] \<and>
   check_face_orientation_against_triangles (plane_kernel (Some clockwise_triangle))
     \<lparr>outer_wire = 0, inner_wires = [], surface_orientation = True\<rparr> ()
     = Inl AssertionError"
proof -
  have same: "\<not> vectors_parallel (0, 0, 1) (0, 0, 1)"
    using cos_tol_angle_less_one
    by (simp add: vectors_parallel_def vectors_parallel_run_def eps_def Let_def)
  have opp: "vectors_parallel (0, 0, 1) (0, 0, - 1)"
    using cos_tol_angle_pos
    by (simp add: vectors_parallel_def vectors_parallel_run_def eps_def Let_def)
  have run: "check_face_orientation_against_triangles_run
      (plane_kernel (Some clockwise_triangle))
      \<lparr>outer_wire = 0, inner_wires = [], surface_orientation = True\<rparr> ()
      = ([((0, 0, 1), (0, 0, 1))], Inl AssertionError)"
    using same
    by (simp add: check_face_orientation_against_triangles_run_def plane_kernel_def
        clockwise_triangle_def triangle_normals_def get_tri_vertex_coord_def Node_def
        UVNode_def get_face_normal_def)
  show ?thesis
    using same opp run
    by (simp add: assertions_made_def check_face_orientation_against_triangles_def)
qed

section \<open>The checks of a dictionary\<close>

lemma check_shell_face_uses_iff:
  "check_shell_face_uses us = Inr () \<longleftrightarrow> list_all face_orientation_wrt_shell us"
  by (induction us) auto

lemma shells_loop_iff:
  "shells_loop shs t = Inr n \<longleftrightarrow>
     list_all (\<lambda>sh. list_all face_orientation_wrt_shell (shell_faces sh)) shs \<and>
     n = t + (\<Sum>sh \<leftarrow> shs. length (shell_faces sh))"
proof (induction shs arbitrary: t)
  case Nil
  then show ?case by auto
next
  case (Cons sh shs)
  show ?case
  proof (cases "check_shell_face_uses (shell_faces sh)")
    case (Inl e)
    then have "\<not> list_all face_orientation_wrt_shell (shell_faces sh)"
      using check_shell_face_uses_iff [of "shell_faces sh"] by simp
    with Inl show ?thesis by simp
  next
    case (Inr u)
    then have "list_all face_orientation_wrt_shell (shell_faces sh)"
      using check_shell_face_uses_iff [of "shell_faces sh"] by simp
    with Inr Cons.IH [of "t + length (shell_faces sh)"] show ?thesis by (simp add: add.assoc)
  qed
qed

text \<open>
  \<^verbatim>\<open>check_face_orientation_wrt_shell\<close> passes on exactly the dictionaries in which every
  use flag is true and the face-uses of the shells are as many as the faces.
\<close>

lemma check_face_orientation_wrt_shell_iff:
  "check_face_orientation_wrt_shell output = Inr () \<longleftrightarrow>
     list_all (\<lambda>sh. list_all face_orientation_wrt_shell (shell_faces sh)) (shells output) \<and>
     (\<Sum>sh \<leftarrow> shells output. length (shell_faces sh)) = length (faces output)"
proof (cases "shells_loop (shells output) 0")
  case (Inl e)
  then show ?thesis
    using shells_loop_iff [of "shells output" 0]
    by (auto simp: check_face_orientation_wrt_shell_def)
next
  case (Inr n)
  then show ?thesis
    using shells_loop_iff [of "shells output" 0 n]
    by (auto simp: check_face_orientation_wrt_shell_def)
qed

text \<open>
  C10. When the kernel has no triangulation for a face, the check of the face makes no
  assertion and passes, whatever the face's \<^verbatim>\<open>surface_orientation\<close> flag is.
\<close>

theorem no_triangulation_no_assertion:
  "triangulation k face = None \<Longrightarrow>
   check_face_orientation_against_triangles k output_face face = Inr () \<and>
   assertions_made k output_face face = []"
  by (simp add: check_face_orientation_against_triangles_def assertions_made_def
      check_face_orientation_against_triangles_run_def)

theorem no_triangulation_no_assertion_witness:
  "triangulation (plane_kernel None) () = None \<and>
   check_face_orientation_against_triangles (plane_kernel None)
     \<lparr>outer_wire = 0, inner_wires = [], surface_orientation = False\<rparr> () = Inr () \<and>
   assertions_made (plane_kernel None)
     \<lparr>outer_wire = 0, inner_wires = [], surface_orientation = False\<rparr> () = []"
proof -
  have h: "triangulation (plane_kernel None) () = None"
    by (simp add: plane_kernel_def)
  show ?thesis
    using h no_triangulation_no_assertion [OF h,
        of "\<lparr>outer_wire = 0, inner_wires = [], surface_orientation = False\<rparr>"]
    by simp
qed

section \<open>A file of several bodies\<close>

lemma bodies_loop_stops:
  "n < length bodies \<Longrightarrow>
   (\<forall>j<n. build_dict_for_body k c (bodies ! j) True = Inr ()) \<Longrightarrow>
   build_dict_for_body k c (bodies ! n) True = Inl e \<Longrightarrow>
   bodies_loop k c i bodies = ([i..<i + Suc n], Inl e)"
proof (induction bodies arbitrary: n i)
  case Nil
  then show ?case by simp
next
  case (Cons b bs)
  show ?case
  proof (cases n)
    case 0
    with Cons.prems show ?thesis by simp
  next
    case (Suc n')
    have first: "build_dict_for_body k c b True = Inr ()"
      using Cons.prems(2) Suc by (metis nth_Cons_0 zero_less_Suc)
    have rest: "\<forall>j<n'. build_dict_for_body k c (bs ! j) True = Inr ()"
      using Cons.prems(2) Suc by (metis Suc_less_eq nth_Cons_Suc)
    have "bodies_loop k c (Suc i) bs = ([Suc i..<Suc i + Suc n'], Inl e)"
      using Cons.prems Suc rest by (intro Cons.IH) simp_all
    then show ?thesis using first Suc by (simp add: upt_conv_Cons)
  qed
qed

lemma transfer_loop_all: "transfer_loop (map Transferred bodies) = bodies"
  by (induction bodies) auto

lemma load_file_of_bodies: "load_bodies_from_file (file_of_bodies bodies) = Inr bodies"
  by (simp add: load_bodies_from_file_def file_of_bodies_def transfer_loop_all)

lemma first_body_bad_core_builds:
  "build_dict_for_body (plane_kernel None) first_body_bad_core 0 True = Inl AssertionError"
  "b \<noteq> 0 \<Longrightarrow> build_dict_for_body (plane_kernel None) first_body_bad_core b True = Inr ()"
  by (simp_all add: build_dict_for_body_def first_body_bad_core_def check_output_for_body_def
      plane_kernel_def check_face_orientation_wrt_shell_def one_face_dict_def
      check_face_orientations_against_triangles_def check_face_orientation_against_triangles_def
      check_face_orientation_against_triangles_run_def)

text \<open>
  C9, as the claim states it, fails: in a file of two bodies whose first body fails its
  check, the loop prints \<^verbatim>\<open>Body 0\<close> only and ends with the error. The second body, which
  passes when it is processed, is never started.
\<close>

theorem later_body_not_processed_after_failure:
  "load_bodies_from_file (file_of_bodies [0, 1]) = Inr [0, 1] \<and>
   build_dict_for_body (plane_kernel None) first_body_bad_core 0 True = Inl AssertionError \<and>
   build_dict_for_body (plane_kernel None) first_body_bad_core 1 True = Inr () \<and>
   build_dicts_for_file (plane_kernel None) first_body_bad_core (file_of_bodies [0, 1])
     = ([0], Inl AssertionError)"
  using first_body_bad_core_builds(1) first_body_bad_core_builds(2) [of 1]
  by (simp add: build_dicts_for_file_def load_file_of_bodies)

text \<open>
  C9, amended. When the body at position \<open>n\<close> of a file is the first whose build or
  check raises, \<^verbatim>\<open>build_dicts_for_file\<close> ends with that error: the bodies at positions
  \<open>0\<close> to \<open>n\<close> are the ones it started, and no later body of the file is processed.
\<close>

theorem build_dicts_for_file_stops_at_first_failure:
  "load_bodies_from_file pathname = Inr bodies \<Longrightarrow>
   n < length bodies \<Longrightarrow>
   (\<forall>j<n. build_dict_for_body k c (bodies ! j) True = Inr ()) \<Longrightarrow>
   build_dict_for_body k c (bodies ! n) True = Inl e \<Longrightarrow>
   build_dicts_for_file k c pathname = ([0..<Suc n], Inl e)"
  using bodies_loop_stops [of n bodies k c e 0] by (simp add: build_dicts_for_file_def)

theorem build_dicts_for_file_stops_witness:
  "load_bodies_from_file (file_of_bodies [1, 0, 1]) = Inr [1, 0, 1] \<and>
   build_dict_for_body (plane_kernel None) first_body_bad_core 1 True = Inr () \<and>
   build_dict_for_body (plane_kernel None) first_body_bad_core 0 True = Inl AssertionError \<and>
   build_dicts_for_file (plane_kernel None) first_body_bad_core (file_of_bodies [1, 0, 1])
     = ([0, 1], Inl AssertionError)"
proof -
  let ?k = "plane_kernel None"
  have l: "load_bodies_from_file (file_of_bodies [1, 0, 1]) = Inr [1, 0, 1]"
    by (rule load_file_of_bodies)
  have ok: "build_dict_for_body ?k first_body_bad_core 1 True = Inr ()"
    using first_body_bad_core_builds(2) [of 1] by simp
  have bad: "build_dict_for_body ?k first_body_bad_core 0 True = Inl AssertionError"
    by (rule first_body_bad_core_builds(1))
  have "build_dicts_for_file ?k first_body_bad_core (file_of_bodies [1, 0, 1])
        = ([0..<Suc 1], Inl AssertionError)"
  proof (rule build_dicts_for_file_stops_at_first_failure [OF l])
    show "1 < length [1, 0, 1 :: nat]" by simp
    show "\<forall>j<1. build_dict_for_body ?k first_body_bad_core ([1, 0, 1] ! j) True = Inr ()"
      using ok by simp
    show "build_dict_for_body ?k first_body_bad_core ([1, 0, 1] ! 1) True = Inl AssertionError"
      using bad by simp
  qed
  then have "build_dicts_for_file ?k first_body_bad_core (file_of_bodies [1, 0, 1])
             = ([0, 1], Inl AssertionError)"
    by (simp add: upt_conv_Cons)
  with l ok bad show ?thesis by blast
qed

section \<open>Index assignment and emission\<close>

lemma set_discover: "set (discover seen hs) = set seen \<union> set hs"
  by (induction hs arbitrary: seen) auto

lemma distinct_discover: "distinct seen \<Longrightarrow> distinct (discover seen hs)"
  by (induction hs arbitrary: seen) auto

lemma discover_known: "set hs \<subseteq> set seen \<Longrightarrow> discover seen hs = seen"
  by (induction hs arbitrary: seen) auto

lemma discover_distinct: "distinct (seen @ hs) \<Longrightarrow> discover seen hs = seen @ hs"
  by (induction hs arbitrary: seen) auto

lemma emit_discover:
  "emit r seen hs = Inr rs \<Longrightarrow> \<exists>new. discover seen hs = seen @ new \<and> map r new = map Inr rs"
proof (induction hs arbitrary: seen rs)
  case Nil
  then show ?case by simp
next
  case (Cons h hs)
  show ?case
  proof (cases "h \<in> set seen")
    case True
    with Cons show ?thesis by simp
  next
    case False
    from Cons.prems False obtain y ys where y: "r h = Inr y"
      and ys: "emit r (seen @ [h]) hs = Inr ys" and rs: "rs = y # ys"
      by (auto split: sum.splits)
    from Cons.IH [OF ys] obtain new where
      "discover (seen @ [h]) hs = (seen @ [h]) @ new" "map r new = map Inr ys" by blast
    then have "discover seen (h # hs) = seen @ (h # new) \<and> map r (h # new) = map Inr rs"
      using False y rs by simp
    then show ?thesis by blast
  qed
qed

lemma position_Some: "h \<in> set xs \<Longrightarrow> \<exists>i. position xs h = Some i"
  by (induction xs) auto

lemma position_nth: "position xs h = Some i \<Longrightarrow> i < length xs \<and> xs ! i = h"
  by (induction xs arbitrary: i) (auto split: if_splits)

lemma position_None: "h \<notin> set xs \<Longrightarrow> position xs h = None"
  by (induction xs) auto

lemma emit_aligned:
  assumes "emit r [] hs = Inr rs"
  shows "length rs = length (discover [] hs)"
    and "h \<in> set hs \<Longrightarrow>
         \<exists>i. position (discover [] hs) h = Some i \<and> i < length rs \<and> r h = Inr (rs ! i)"
proof -
  from emit_discover [OF assms] have m: "map r (discover [] hs) = map Inr rs" by simp
  from m have "length (map r (discover [] hs)) = length (map Inr rs :: (error + 'a) list)" by simp
  then show len: "length rs = length (discover [] hs)" by simp
  assume "h \<in> set hs"
  then have "h \<in> set (discover [] hs)" by (simp add: set_discover)
  then obtain i where i: "position (discover [] hs) h = Some i" using position_Some by blast
  then have b: "i < length (discover [] hs)" and n: "discover [] hs ! i = h"
    using position_nth by blast+
  have "map r (discover [] hs) ! i = map Inr rs ! i" using m by simp
  then have "r h = Inr (rs ! i)" using b n len by simp
  with i b len show "\<exists>i. position (discover [] hs) h = Some i \<and> i < length rs \<and> r h = Inr (rs ! i)"
    by auto
qed

lemma map_err_map: "map_err f xs = Inr ys \<Longrightarrow> map f xs = map Inr ys"
  by (induction xs arbitrary: ys) (auto split: sum.splits)

lemma map_err_length: "map_err f xs = Inr ys \<Longrightarrow> length ys = length xs"
  using map_err_map [of f xs ys] by (metis length_map)


lemma shell_record_of_length:
  "shell_record_of m s sh = Inr r \<Longrightarrow>
   length (shell_faces r) = length (shell_face_uses s sh) \<and> shell_face_uses s sh \<noteq> []"
  by (auto simp: shell_record_of_def split: list.splits sum.splits dest: map_err_length)

lemma distinct_concat_nonempty:
  "distinct (concat (map g xs)) \<Longrightarrow> (\<And>x. x \<in> set xs \<Longrightarrow> g x \<noteq> []) \<Longrightarrow> distinct xs"
proof (induction xs)
  case Nil
  then show ?case by simp
next
  case (Cons x xs)
  from Cons.prems(1) have d: "distinct (concat (map g xs))"
    and disj: "set (g x) \<inter> set (concat (map g xs)) = {}" by simp_all
  have ne: "g x \<noteq> []" using Cons.prems(2) by simp
  then obtain a where a: "a \<in> set (g x)" by (cases "g x") auto
  have "x \<notin> set xs"
  proof
    assume "x \<in> set xs"
    with a have "a \<in> set (concat (map g xs))" by auto
    with a disj show False by blast
  qed
  moreover have "distinct xs"
  proof (rule Cons.IH [OF d])
    fix y assume "y \<in> set xs"
    then show "g y \<noteq> []" using Cons.prems(2) by simp
  qed
  ultimately show ?case by simp
qed


lemma shell_lengths:
  "map (shell_record_of m s) xs = map Inr shs \<Longrightarrow>
   map (\<lambda>r. length (shell_faces r)) shs = map (\<lambda>sh. length (shell_face_uses s sh)) xs"
proof (induction xs arbitrary: shs)
  case Nil
  then show ?case by simp
next
  case (Cons x xs)
  then obtain r rs where "shs = r # rs" by (cases shs) auto
  with Cons show ?case by (auto dest: shell_record_of_length)
qed

lemma length_concat_uses:
  "length (concat (map (\<lambda>sh. map fst (g sh)) xs)) = sum_list (map (\<lambda>sh. length (g sh)) xs)"
  by (induction xs) auto


lemma builder_result:
  assumes "TopologyDictBuilder_build_dict_for_body m s = Inr d"
  shows "emit (vertex_record_of s) [] (decompose s Vertex) = Inr (vertices d) \<and>
    emit (edge_record_of m s) [] (decompose s Edge) = Inr (edges d) \<and>
    emit (wire_record_of m s) [] (decompose s Wire) = Inr (wires d) \<and>
    emit (face_record_of m s) [] (decompose s Face) = Inr (faces d) \<and>
    emit (shell_record_of m s) [] (decompose s Shell) = Inr (shells d) \<and>
    solid_shells s \<noteq> []"
proof -
  from assms have ne: "solid_shells s \<noteq> []"
    unfolding TopologyDictBuilder_build_dict_for_body_def by (cases "solid_shells s = []") auto
  obtain vs where vs: "emit (vertex_record_of s) [] (decompose s Vertex) = Inr vs"
    using assms ne unfolding TopologyDictBuilder_build_dict_for_body_def
    by (cases "emit (vertex_record_of s) [] (decompose s Vertex)") auto
  obtain es where es: "emit (edge_record_of m s) [] (decompose s Edge) = Inr es"
    using assms ne vs unfolding TopologyDictBuilder_build_dict_for_body_def
    by (cases "emit (edge_record_of m s) [] (decompose s Edge)") auto
  obtain ws where ws: "emit (wire_record_of m s) [] (decompose s Wire) = Inr ws"
    using assms ne vs es unfolding TopologyDictBuilder_build_dict_for_body_def
    by (cases "emit (wire_record_of m s) [] (decompose s Wire)") auto
  obtain fs where fs: "emit (face_record_of m s) [] (decompose s Face) = Inr fs"
    using assms ne vs es ws unfolding TopologyDictBuilder_build_dict_for_body_def
    by (cases "emit (face_record_of m s) [] (decompose s Face)") auto
  obtain shs where shs: "emit (shell_record_of m s) [] (decompose s Shell) = Inr shs"
    using assms ne vs es ws fs unfolding TopologyDictBuilder_build_dict_for_body_def
    by (cases "emit (shell_record_of m s) [] (decompose s Shell)") auto
  have "d = \<lparr>vertices = vs, edges = es, wires = ws, faces = fs, shells = shs\<rparr>"
    using assms ne vs es ws fs shs unfolding TopologyDictBuilder_build_dict_for_body_def by simp
  then show ?thesis using ne vs es ws fs shs by simp
qed

lemma index_of_new:
  "index_of (EntityMapper_new s) kd h =
     (case position (discover [] (decompose s kd)) h of None \<Rightarrow> Inl LookupError | Some i \<Rightarrow> Inr i)"
  by (simp add: index_of_def EntityMapper_new_def visit_shape_def)

lemma emit_indexed:
  assumes "emit r [] (decompose s kd) = Inr rs"
  shows "count (EntityMapper_new s) kd = length rs \<and>
         (\<forall>h \<in> set (decompose s kd).
            \<exists>i. index_of (EntityMapper_new s) kd h = Inr i \<and> i < length rs \<and> r h = Inr (rs ! i))"
proof -
  have "count (EntityMapper_new s) kd = length rs"
    using emit_aligned(1) [OF assms] by (simp add: count_def EntityMapper_new_def visit_shape_def)
  moreover have "\<exists>i. index_of (EntityMapper_new s) kd h = Inr i \<and> i < length rs \<and> r h = Inr (rs ! i)"
    if "h \<in> set (decompose s kd)" for h
    using emit_aligned(2) [OF assms that] by (auto simp: index_of_new)
  ultimately show ?thesis by blast
qed

lemma lens_fields:
  "solid_shells lens_solid = [0]"
  "shell_face_uses lens_solid sh = [(0, True), (1, True)]"
  "face_wires lens_solid f = [f]"
  "face_surface_orientation lens_solid f = (f = 0)"
  "wire_edge_uses lens_solid w = [(0, w = 0)]"
  "edge_vertices lens_solid e = (0, 0)"
  "vertex_point lens_solid v = (1, 0, 0)"
  by (simp_all add: lens_solid_def)

lemma lens_decompose:
  "shells_of lens_solid = [0]"
  "faces_of lens_solid = [0, 1]"
  "wires_of lens_solid = [0, 1]"
  "edges_of lens_solid = [0, 0]"
  "vertices_of lens_solid = [0, 0, 0, 0]"
  by (simp_all add: lens_fields shells_of_def faces_of_def wires_of_def edges_of_def
      vertices_of_def)

lemma lens_mapper:
  "EntityMapper_new lens_solid Shell = [0]"
  "EntityMapper_new lens_solid Face = [0, 1]"
  "EntityMapper_new lens_solid Wire = [0, 1]"
  "EntityMapper_new lens_solid Edge = [0]"
  "EntityMapper_new lens_solid Vertex = [0]"
  by (simp_all add: EntityMapper_new_def visit_shape_def lens_decompose)

lemma lens_build: "TopologyDictBuilder_build_dict_for_body (EntityMapper_new lens_solid) lens_solid = Inr lens_dict"
  by (simp add: TopologyDictBuilder_build_dict_for_body_def lens_decompose vertex_record_of_def edge_record_of_def
      wire_record_of_def face_record_of_def shell_record_of_def edge_use_of_def face_use_of_def
      index_of_def lens_mapper lens_dict_def lens_fields)

lemma lens_manifold: "manifold lens_solid"
  by (simp add: manifold_def lens_decompose)

text \<open>
  C2. In the dictionary of a manifold solid, the lengths of the face-use lists of the
  shell records add up to the length of the list of faces.
\<close>

theorem manifold_face_uses_equal_faces:
  assumes man: "manifold s"
    and build: "TopologyDictBuilder_build_dict_for_body (EntityMapper_new s) s = Inr d"
  shows "(\<Sum>shell \<leftarrow> shells d. length (shell_faces shell)) = length (faces d)"
proof -
  let ?m = "EntityMapper_new s"
  from builder_result [OF build]
  have fs: "emit (face_record_of ?m s) [] (decompose s Face) = Inr (faces d)"
    and shs: "emit (shell_record_of ?m s) [] (decompose s Shell) = Inr (shells d)"
    by simp_all
  have dist_faces: "distinct (faces_of s)" using man by (simp add: manifold_def)
  have nonempty: "shell_face_uses s sh \<noteq> []" if "sh \<in> set (shells_of s)" for sh
  proof -
    from emit_aligned(2) [OF shs, of sh] that obtain i where
      "shell_record_of ?m s sh = Inr (shells d ! i)" by auto
    then show ?thesis using shell_record_of_length by blast
  qed
  then have nonempty': "map fst (shell_face_uses s sh) \<noteq> []" if "sh \<in> set (shells_of s)" for sh
    using that by simp
  have dist_shells: "distinct (shells_of s)"
    using dist_faces nonempty' unfolding faces_of_def by (rule distinct_concat_nonempty)
  then have "discover [] (shells_of s) = shells_of s" using discover_distinct [of "[]"] by simp
  with emit_discover [OF shs]
  have "map (shell_record_of ?m s) (shells_of s) = map Inr (shells d)" by simp
  then have "map (\<lambda>r. length (shell_faces r)) (shells d)
             = map (\<lambda>sh. length (shell_face_uses s sh)) (shells_of s)"
    by (rule shell_lengths)
  then have "(\<Sum>shell \<leftarrow> shells d. length (shell_faces shell)) = length (faces_of s)"
    by (simp add: faces_of_def length_concat_uses)
  moreover have "length (faces d) = length (faces_of s)"
    using emit_aligned(1) [OF fs] discover_distinct [of "[]" "faces_of s"] dist_faces by simp
  ultimately show ?thesis by simp
qed

theorem manifold_face_uses_equal_faces_witness:
  "manifold lens_solid \<and>
   TopologyDictBuilder_build_dict_for_body (EntityMapper_new lens_solid) lens_solid
     = Inr lens_dict \<and>
   (\<Sum>shell \<leftarrow> shells lens_dict. length (shell_faces shell)) = length (faces lens_dict)"
  using manifold_face_uses_equal_faces [OF lens_manifold lens_build] lens_manifold lens_build
  by simp

text \<open>
  C5. For each of the five kinds, the list of the dictionary is as long as the mapper's
  count of the kind, and every entity of the body has a mapper index, which is a
  position of the list, and the record at that position is the record of the entity. In
  particular the faces list, read at the mapper's index of a face, gives the record of
  that face.
\<close>

theorem list_position_is_mapper_index:
  assumes build: "TopologyDictBuilder_build_dict_for_body (EntityMapper_new s) s = Inr d"
  shows
    "(count (EntityMapper_new s) Vertex = length (vertices d) \<and>
      (\<forall>v \<in> set (decompose s Vertex). \<exists>i. index_of (EntityMapper_new s) Vertex v = Inr i \<and>
          i < length (vertices d) \<and> vertex_record_of s v = Inr (vertices d ! i))) \<and>
     (count (EntityMapper_new s) Edge = length (edges d) \<and>
      (\<forall>e \<in> set (decompose s Edge). \<exists>i. index_of (EntityMapper_new s) Edge e = Inr i \<and>
          i < length (edges d) \<and> edge_record_of (EntityMapper_new s) s e = Inr (edges d ! i))) \<and>
     (count (EntityMapper_new s) Wire = length (wires d) \<and>
      (\<forall>w \<in> set (decompose s Wire). \<exists>i. index_of (EntityMapper_new s) Wire w = Inr i \<and>
          i < length (wires d) \<and> wire_record_of (EntityMapper_new s) s w = Inr (wires d ! i))) \<and>
     (count (EntityMapper_new s) Face = length (faces d) \<and>
      (\<forall>f \<in> set (decompose s Face). \<exists>i. index_of (EntityMapper_new s) Face f = Inr i \<and>
          i < length (faces d) \<and> face_record_of (EntityMapper_new s) s f = Inr (faces d ! i))) \<and>
     (count (EntityMapper_new s) Shell = length (shells d) \<and>
      (\<forall>sh \<in> set (decompose s Shell). \<exists>i. index_of (EntityMapper_new s) Shell sh = Inr i \<and>
          i < length (shells d) \<and>
          shell_record_of (EntityMapper_new s) s sh = Inr (shells d ! i)))"
proof -
  let ?m = "EntityMapper_new s"
  from builder_result [OF build] have
    "emit (vertex_record_of s) [] (decompose s Vertex) = Inr (vertices d)"
    "emit (edge_record_of ?m s) [] (decompose s Edge) = Inr (edges d)"
    "emit (wire_record_of ?m s) [] (decompose s Wire) = Inr (wires d)"
    "emit (face_record_of ?m s) [] (decompose s Face) = Inr (faces d)"
    "emit (shell_record_of ?m s) [] (decompose s Shell) = Inr (shells d)"
    by simp_all
  then show ?thesis by (intro conjI emit_indexed)
qed

theorem list_position_is_mapper_index_witness:
  "TopologyDictBuilder_build_dict_for_body (EntityMapper_new lens_solid) lens_solid
     = Inr lens_dict \<and>
   (\<exists>i. index_of (EntityMapper_new lens_solid) Vertex 0 = Inr i \<and>
        i < length (vertices lens_dict) \<and>
        vertex_record_of lens_solid 0 = Inr (vertices lens_dict ! i)) \<and>
   (\<exists>i. index_of (EntityMapper_new lens_solid) Edge 0 = Inr i \<and>
        i < length (edges lens_dict) \<and>
        edge_record_of (EntityMapper_new lens_solid) lens_solid 0 = Inr (edges lens_dict ! i)) \<and>
   (\<exists>i. index_of (EntityMapper_new lens_solid) Wire 1 = Inr i \<and>
        i < length (wires lens_dict) \<and>
        wire_record_of (EntityMapper_new lens_solid) lens_solid 1 = Inr (wires lens_dict ! i)) \<and>
   (\<exists>i. index_of (EntityMapper_new lens_solid) Face 1 = Inr i \<and>
        i < length (faces lens_dict) \<and>
        face_record_of (EntityMapper_new lens_solid) lens_solid 1 = Inr (faces lens_dict ! i)) \<and>
   (\<exists>i. index_of (EntityMapper_new lens_solid) Shell 0 = Inr i \<and>
        i < length (shells lens_dict) \<and>
        shell_record_of (EntityMapper_new lens_solid) lens_solid 0 = Inr (shells lens_dict ! i))"
  using list_position_is_mapper_index [OF lens_build] lens_build
  by (simp add: lens_decompose)

lemma map_err_mem: "map_err f xs = Inr ys \<Longrightarrow> x \<in> set xs \<Longrightarrow> \<exists>y \<in> set ys. f x = Inr y"
proof -
  assume a: "map_err f xs = Inr ys" and x: "x \<in> set xs"
  from x have "f x \<in> set (map f xs)" by simp
  then have "f x \<in> set (map Inr ys)" using map_err_map [OF a] by simp
  then show ?thesis by auto
qed

lemma shell_record_face_index:
  assumes "shell_record_of m s sh = Inr r" and "f \<in> fst ` set (shell_face_uses s sh)"
  shows "\<exists>i. index_of m Face f = Inr i \<and> i \<in> face_index ` set (shell_faces r)"
proof -
  from assms(2) obtain u where u: "u \<in> set (shell_face_uses s sh)" and f: "fst u = f" by auto
  from assms(1) have me: "map_err (face_use_of m) (shell_face_uses s sh) = Inr (shell_faces r)"
    by (auto simp: shell_record_of_def split: list.splits sum.splits)
  from map_err_mem [OF me u] obtain y where y: "y \<in> set (shell_faces r)"
    and fu: "face_use_of m u = Inr y" by blast
  from fu f have "index_of m Face f = Inr (face_index y)"
    by (auto simp: face_use_of_def split: sum.splits)
  with y show ?thesis by blast
qed

lemma shared_not_distinct:
  "x \<in> set xs \<Longrightarrow> y \<in> set xs \<Longrightarrow> x \<noteq> y \<Longrightarrow> a \<in> set (g x) \<Longrightarrow> a \<in> set (g y) \<Longrightarrow>
   \<not> distinct (concat (map g xs))"
proof (induction xs)
  case Nil
  then show ?case by simp
next
  case (Cons z zs)
  show ?case
  proof (cases "x \<in> set zs \<and> y \<in> set zs")
    case True
    with Cons have "\<not> distinct (concat (map g zs))" by blast
    then show ?thesis by simp
  next
    case False
    then consider "z = x" "y \<in> set zs" | "z = y" "x \<in> set zs"
      using Cons.prems by auto
    then show ?thesis
    proof cases
      case 1
      then have "a \<in> set (g z) \<inter> set (concat (map g zs))" using Cons.prems by auto
      then show ?thesis by auto
    next
      case 2
      then have "a \<in> set (g z) \<inter> set (concat (map g zs))" using Cons.prems by auto
      then show ?thesis by auto
    qed
  qed
qed

lemma card_less_length: "\<not> distinct xs \<Longrightarrow> card (set xs) < length xs"
  using card_distinct [of xs] card_length [of xs] by (cases "card (set xs) = length xs") auto

lemma set_concat_cong:
  "set xs = set ys \<Longrightarrow> set (concat (map g xs)) = set (concat (map g ys))"
  by auto

lemma glued_fields:
  "solid_shells glued_solid = [0, 1]"
  "shell_face_uses glued_solid sh = (if sh = 0 then [(0, True), (1, True)] else [(1, False), (2, True)])"
  "face_wires glued_solid f = [f]"
  "face_surface_orientation glued_solid f = True"
  "wire_edge_uses glued_solid w = [(w, True)]"
  "edge_vertices glued_solid e = (e, e)"
  "vertex_point glued_solid v = (0, 0, 0)"
  by (simp_all add: glued_solid_def)

lemma glued_decompose:
  "shells_of glued_solid = [0, 1]"
  "faces_of glued_solid = [0, 1, 1, 2]"
  "wires_of glued_solid = [0, 1, 1, 2]"
  "edges_of glued_solid = [0, 1, 1, 2]"
  "vertices_of glued_solid = [0, 0, 1, 1, 1, 1, 2, 2]"
  by (simp_all add: glued_fields shells_of_def faces_of_def wires_of_def edges_of_def
      vertices_of_def)

lemma glued_mapper:
  "EntityMapper_new glued_solid Shell = [0, 1]"
  "EntityMapper_new glued_solid Face = [0, 1, 2]"
  "EntityMapper_new glued_solid Wire = [0, 1, 2]"
  "EntityMapper_new glued_solid Edge = [0, 1, 2]"
  "EntityMapper_new glued_solid Vertex = [0, 1, 2]"
  by (simp_all add: EntityMapper_new_def visit_shape_def glued_decompose)

lemma glued_build:
  "TopologyDictBuilder_build_dict_for_body (EntityMapper_new glued_solid) glued_solid
     = Inr glued_dict"
  by (simp add: TopologyDictBuilder_build_dict_for_body_def glued_decompose vertex_record_of_def
      edge_record_of_def wire_record_of_def face_record_of_def shell_record_of_def
      edge_use_of_def face_use_of_def index_of_def glued_mapper glued_dict_def glued_fields)

text \<open>
  C4. In the dictionary of a solid in which two distinct shells use one face, as in the
  union of the two overlapping boxes, the records of two distinct shells hold the index
  of the same face among their face-uses, and the face-uses of all shells are more than
  the faces.
\<close>

theorem shared_face_use_sum_exceeds_faces:
  assumes build: "TopologyDictBuilder_build_dict_for_body (EntityMapper_new s) s = Inr d"
    and sh1: "sh1 \<in> set (decompose s Shell)"
    and sh2: "sh2 \<in> set (decompose s Shell)"
    and ne: "sh1 \<noteq> sh2"
    and f1: "f \<in> fst ` set (shell_face_uses s sh1)"
    and f2: "f \<in> fst ` set (shell_face_uses s sh2)"
  shows "(\<exists>j1 j2 i. j1 < length (shells d) \<and> j2 < length (shells d) \<and> j1 \<noteq> j2 \<and>
            i < length (faces d) \<and>
            i \<in> face_index ` set (shell_faces (shells d ! j1)) \<and>
            i \<in> face_index ` set (shell_faces (shells d ! j2))) \<and>
         length (faces d) < (\<Sum>shell \<leftarrow> shells d. length (shell_faces shell))"
proof -
  let ?m = "EntityMapper_new s"
  let ?X = "discover [] (shells_of s)"
  let ?g = "\<lambda>sh. map fst (shell_face_uses s sh)"
  from builder_result [OF build]
  have fs: "emit (face_record_of ?m s) [] (decompose s Face) = Inr (faces d)"
    and shs: "emit (shell_record_of ?m s) [] (decompose s Shell) = Inr (shells d)"
    by simp_all
  have setX: "set ?X = set (shells_of s)" by (simp add: set_discover)
  \<comment> \<open>the two shell records\<close>
  from emit_aligned(2) [OF shs sh1] obtain j1 where
    p1: "position ?X sh1 = Some j1" and b1: "j1 < length (shells d)"
    and r1: "shell_record_of ?m s sh1 = Inr (shells d ! j1)" by auto
  from emit_aligned(2) [OF shs sh2] obtain j2 where
    p2: "position ?X sh2 = Some j2" and b2: "j2 < length (shells d)"
    and r2: "shell_record_of ?m s sh2 = Inr (shells d ! j2)" by auto
  have "?X ! j1 = sh1" "?X ! j2 = sh2" using position_nth [OF p1] position_nth [OF p2] by simp_all
  with ne have jne: "j1 \<noteq> j2" by auto
  from shell_record_face_index [OF r1 f1] obtain i where
    i: "index_of ?m Face f = Inr i" and i1: "i \<in> face_index ` set (shell_faces (shells d ! j1))"
    by blast
  from shell_record_face_index [OF r2 f2] i
  have i2: "i \<in> face_index ` set (shell_faces (shells d ! j2))" by auto
  have "f \<in> set (decompose s Face)" using sh1 f1 by (auto simp: faces_of_def)
  with emit_indexed [OF fs] i have ib: "i < length (faces d)" by auto
  \<comment> \<open>the count\<close>
  from emit_discover [OF shs]
  have "map (shell_record_of ?m s) ?X = map Inr (shells d)" by simp
  then have "map (\<lambda>r. length (shell_faces r)) (shells d)
             = map (\<lambda>sh. length (shell_face_uses s sh)) ?X"
    by (rule shell_lengths)
  then have total: "(\<Sum>shell \<leftarrow> shells d. length (shell_faces shell)) = length (concat (map ?g ?X))"
    by (simp add: length_concat_uses)
  have "sh1 \<in> set ?X" "sh2 \<in> set ?X" using sh1 sh2 setX by simp_all
  moreover have "f \<in> set (?g sh1)" "f \<in> set (?g sh2)" using f1 f2 by simp_all
  ultimately have "\<not> distinct (concat (map ?g ?X))"
    using ne by (intro shared_not_distinct [of sh1 _ sh2 f ?g])
  then have less: "card (set (concat (map ?g ?X))) < length (concat (map ?g ?X))"
    by (rule card_less_length)
  have "set (concat (map ?g ?X)) = set (faces_of s)"
    unfolding faces_of_def using setX by (rule set_concat_cong)
  moreover have "length (faces d) = card (set (faces_of s))"
  proof -
    have "length (faces d) = length (discover [] (faces_of s))"
      using emit_aligned(1) [OF fs] by simp
    also have "\<dots> = card (set (discover [] (faces_of s)))"
      using distinct_discover [of "[]" "faces_of s"] by (simp add: distinct_card)
    also have "\<dots> = card (set (faces_of s))" by (simp add: set_discover)
    finally show ?thesis .
  qed
  ultimately have "length (faces d) < (\<Sum>shell \<leftarrow> shells d. length (shell_faces shell))"
    using less total by simp
  with b1 b2 jne ib i1 i2 show ?thesis by blast
qed

theorem shared_face_use_sum_exceeds_faces_witness:
  "TopologyDictBuilder_build_dict_for_body (EntityMapper_new glued_solid) glued_solid
     = Inr glued_dict \<and>
   (0::nat) \<in> set (decompose glued_solid Shell) \<and> (1::nat) \<in> set (decompose glued_solid Shell) \<and>
   (1::nat) \<in> fst ` set (shell_face_uses glued_solid 0) \<and>
   (1::nat) \<in> fst ` set (shell_face_uses glued_solid 1) \<and>
   (\<exists>j1 j2 i. j1 < length (shells glued_dict) \<and> j2 < length (shells glued_dict) \<and> j1 \<noteq> j2 \<and>
      i < length (faces glued_dict) \<and>
      i \<in> face_index ` set (shell_faces (shells glued_dict ! j1)) \<and>
      i \<in> face_index ` set (shell_faces (shells glued_dict ! j2))) \<and>
   length (faces glued_dict) < (\<Sum>shell \<leftarrow> shells glued_dict. length (shell_faces shell))"
proof -
  have s0: "(0::nat) \<in> set (decompose glued_solid Shell)"
    and s1: "(1::nat) \<in> set (decompose glued_solid Shell)"
    by (simp_all add: glued_decompose)
  have f0: "(1::nat) \<in> fst ` set (shell_face_uses glued_solid 0)"
    and f1: "(1::nat) \<in> fst ` set (shell_face_uses glued_solid 1)"
    by (simp_all add: glued_fields)
  have ne: "(0::nat) \<noteq> 1" by simp
  from shared_face_use_sum_exceeds_faces [OF glued_build s0 s1 ne f0 f1] glued_build s0 s1 f0 f1
  show ?thesis by blast
qed

section \<open>Builds on one mapper object\<close>


lemma then_op_reads:
  assumes "p m = (x, m)" and "\<And>a. x = Inr a \<Longrightarrow> f a m = (g a, m)"
  shows "then_op p f m = (case x of Inl e \<Rightarrow> Inl e | Inr a \<Rightarrow> g a, m)"
  using assms by (cases x) (simp_all add: then_op_def)













end
